theory Spec2Isabelle
  imports Main "HOL-Library.Word"
begin

section \<open>The GSYM reader: data model\<close>

text \<open>
  A shallow embedding of \<^verbatim>\<open>include/llvm/DebugInfo/GSYM/GsymReader.h\<close>. The fixed-width
  C++ integers are words; \<^verbatim>\<open>size_t\<close> and \<^verbatim>\<open>uint64_t\<close> are both 64 bits wide.
\<close>

type_synonym uint8_t = "8 word"
type_synonym uint16_t = "16 word"
type_synonym uint32_t = "32 word"
type_synonym uint64_t = "64 word"
type_synonym size_t = "64 word"

text \<open>The byte order of \<^verbatim>\<open>llvm::support::endianness\<close>; the host has one of the two.\<close>

datatype endianness = big | little

text \<open>
  Modelled from the spec: \<^verbatim>\<open>Header.h\<close> is not among the sources. Of the header only the two
  fields the accessors read are kept: the base address (unsigned 64-bit) and the
  address-offset width, which the data model restricts to 1, 2, 4 or 8 bytes.
\<close>

datatype AddrOffSize_t = Width1 | Width2 | Width4 | Width8

record Header =
  BaseAddress :: uint64_t
  AddrOffSize :: AddrOffSize_t

text \<open>
  Modelled from the spec: \<^verbatim>\<open>FileEntry.h\<close> is not among the sources. A file entry is a pair
  of 32-bit string-table offsets, directory and file name.
\<close>

record FileEntry =
  Dir :: uint32_t
  Base :: uint32_t

text \<open>
  The members of \<^verbatim>\<open>class GsymReader\<close> that the accessors read. \<^verbatim>\<open>AddrOffsets\<close> is the
  \<^verbatim>\<open>ArrayRef<uint8_t>\<close> of raw bytes of the address table; \<^verbatim>\<open>StrTab\<close> is the byte blob of
  the string table. The members that only own storage (\<^verbatim>\<open>MemBuffer\<close>, \<^verbatim>\<open>GsymBytes\<close>,
  \<^verbatim>\<open>Swap\<close>) carry no value of their own and are left out.
\<close>

record GsymReader =
  Endian :: endianness
  Hdr :: Header
  AddrOffsets :: "uint8_t list"
  AddrInfoOffsets :: "uint32_t list"
  Files :: "FileEntry list"
  StrTab :: string

section \<open>Reading the address table at an element type\<close>

text \<open>\<^verbatim>\<open>sizeof(T)\<close> for an unsigned integer type of \<open>LENGTH('a)\<close> bits.\<close>

definition sizeof :: "'a::len itself \<Rightarrow> nat" where
  "sizeof T = LENGTH('a) div 8"

text \<open>
  What dereferencing a \<^verbatim>\<open>const T *\<close> obtained by \<^verbatim>\<open>reinterpret_cast\<close> from a byte pointer
  yields on a host of the given byte order: the bytes of the object, most significant
  first on a big-endian host and least significant first on a little-endian one.
\<close>

definition load :: "endianness \<Rightarrow> uint8_t list \<Rightarrow> 'a::len word" where
  "load host bs =
     foldl (\<lambda>acc b. push_bit 8 acc + ucast b) 0 (case host of big \<Rightarrow> bs | little \<Rightarrow> rev bs)"

text \<open>
  \<^verbatim>\<open>getAddrOffsets<T>()\<close>: the array of \<^verbatim>\<open>AddrOffsets.size()/sizeof(T)\<close> elements of type
  \<^verbatim>\<open>T\<close> that starts at \<^verbatim>\<open>AddrOffsets.data()\<close>; element \<open>i\<close> occupies the bytes from
  \<open>i * sizeof(T)\<close> on.
\<close>

definition getAddrOffsets :: "endianness \<Rightarrow> GsymReader \<Rightarrow> 'a::len word list" where
  "getAddrOffsets host rd =
     (let sz = sizeof TYPE('a) in
      map (\<lambda>i. load host (take sz (drop (i * sz) (AddrOffsets rd))))
          [0 ..< length (AddrOffsets rd) div sz])"

text \<open>
  \<^verbatim>\<open>addressForIndex<T>(Index)\<close>. The element is converted to \<^verbatim>\<open>uint64_t\<close> by the usual
  arithmetic conversions and the sum wraps at 64 bits.
\<close>

definition addressForIndex ::
  "'a::len itself \<Rightarrow> endianness \<Rightarrow> GsymReader \<Rightarrow> size_t \<Rightarrow> uint64_t option" where
  "addressForIndex T host rd Index =
     (let AIO = (getAddrOffsets host rd :: 'a word list) in
      if unat Index < length AIO
      then Some (ucast (AIO ! unat Index) + BaseAddress (Hdr rd))
      else None)"

section \<open>The binary search\<close>

text \<open>
  \<^verbatim>\<open>std::lower_bound(Begin, End, AddrOffset)\<close> of the C++ standard library, as its
  implementations write it: a bisection over the range that starts \<open>first\<close> elements after
  \<^verbatim>\<open>Begin\<close> and has \<open>len\<close> elements. Iterators are kept as their distance from
  \<^verbatim>\<open>Begin\<close>. The comparison \<^verbatim>\<open>*middle < value\<close> converts the element to \<^verbatim>\<open>uint64_t\<close>.
  The element read is always inside the range, so inside the array when the range is.
\<close>

function lower_bound_loop :: "'a::len word list \<Rightarrow> uint64_t \<Rightarrow> nat \<Rightarrow> nat \<Rightarrow> nat" where
  "lower_bound_loop xs val first len =
     (if 0 < len then
        (let half = len div 2; middle = first + half in
         if ucast (xs ! middle) < val
         then lower_bound_loop xs val (middle + 1) (len - half - 1)
         else lower_bound_loop xs val first half)
      else first)"
  by pat_completeness auto
termination
  by (relation "measure (\<lambda>(xs, val, first, len). len)") auto

definition lower_bound :: "'a::len word list \<Rightarrow> uint64_t \<Rightarrow> nat" where
  "lower_bound xs val = lower_bound_loop xs val 0 (length xs)"

text \<open>
  \<^verbatim>\<open>getAddressOffsetIndex<T>(AddrOffset)\<close>. \<^verbatim>\<open>Iter\<close> is kept as its distance from \<^verbatim>\<open>Begin\<close>;
  \<^verbatim>\<open>std::distance\<close> is a signed \<^verbatim>\<open>ptrdiff_t\<close>, here an \<open>int\<close>, which the return converts
  to \<^verbatim>\<open>uint64_t\<close>. The source has no guard before \<^verbatim>\<open>--Iter\<close>, so the distance is \<open>-1\<close>
  when \<^verbatim>\<open>Iter\<close> was \<^verbatim>\<open>Begin\<close>. The right operand of \<^verbatim>\<open>||\<close> is evaluated only when
  \<^verbatim>\<open>Iter != End\<close>.
\<close>

definition getAddressOffsetIndex ::
  "'a::len itself \<Rightarrow> endianness \<Rightarrow> GsymReader \<Rightarrow> uint64_t \<Rightarrow> uint64_t" where
  "getAddressOffsetIndex T host rd AddrOffset =
     (let AIO = (getAddrOffsets host rd :: 'a word list);
          End = length AIO;
          Iter = lower_bound AIO AddrOffset
      in if Iter = End \<or> AddrOffset < ucast (AIO ! Iter)
         then word_of_int (int Iter - 1)
         else word_of_int (int Iter))"

section \<open>File and string accessors\<close>

text \<open>\<^verbatim>\<open>getFile(Index)\<close>; the 32-bit index is compared with the \<^verbatim>\<open>size_t\<close> length.\<close>

definition getFile :: "GsymReader \<Rightarrow> uint32_t \<Rightarrow> FileEntry option" where
  "getFile rd Index =
     (if unat Index < length (Files rd) then Some (Files rd ! unat Index) else None)"

text \<open>
  Modelled from the spec: \<^verbatim>\<open>StringTable.h\<close> (the \<^verbatim>\<open>operator[]\<close> behind \<^verbatim>\<open>StrTab[Offset]\<close>) is
  not among the sources. The spec has \<^verbatim>\<open>string_at(offset)\<close> return the NUL-terminated slice
  that starts at the offset, and the empty string for an out-of-range or malformed offset;
  an offset is taken as malformed when no NUL byte follows it inside the table, so that no
  NUL-terminated slice starts there.
\<close>

definition StringTable_at :: "string \<Rightarrow> nat \<Rightarrow> string" where
  "StringTable_at Data Offset =
     (if Offset < length Data \<and> CHR 0x00 \<in> set (drop Offset Data)
      then takeWhile (\<lambda>c. c \<noteq> CHR 0x00) (drop Offset Data)
      else [])"

text \<open>\<^verbatim>\<open>getString(Offset)\<close> returns \<^verbatim>\<open>StrTab[Offset]\<close>.\<close>

definition getString :: "GsymReader \<Rightarrow> uint32_t \<Rightarrow> string" where
  "getString rd Offset = StringTable_at (StrTab rd) (unat Offset)"

section \<open>Looking an address up\<close>

datatype LookupError = BelowRange | NotFound

text \<open>
  Modelled from the spec: the address table as the spec's \<^verbatim>\<open>index_for_address\<close> sees it, a
  sequence of unsigned 64-bit offsets read at the width the header configures.
\<close>

definition AddressTable :: "endianness \<Rightarrow> GsymReader \<Rightarrow> uint64_t list" where
  "AddressTable host rd =
     (case AddrOffSize (Hdr rd) of
        Width1 \<Rightarrow> map ucast (getAddrOffsets host rd :: uint8_t list)
      | Width2 \<Rightarrow> map ucast (getAddrOffsets host rd :: uint16_t list)
      | Width4 \<Rightarrow> map ucast (getAddrOffsets host rd :: uint32_t list)
      | Width8 \<Rightarrow> map ucast (getAddrOffsets host rd :: uint64_t list))"

text \<open>
  Modelled from the spec: the body of \<^verbatim>\<open>getAddressIndex\<close> is not among the sources, only
  its declaration. Following the spec's \<^verbatim>\<open>index_for_address\<close>: fail with \<^verbatim>\<open>BelowRange\<close> when
  the address is below the base address; compute the target offset; fail with
  \<^verbatim>\<open>NotFound\<close> when the table is empty or the target is smaller than the first entry;
  otherwise return the index the binary search of the source, \<^verbatim>\<open>getAddressOffsetIndex\<close> at
  the header's width, selects.
\<close>

definition searchAddressOffset ::
  "'a::len itself \<Rightarrow> endianness \<Rightarrow> GsymReader \<Rightarrow> uint64_t \<Rightarrow> LookupError + uint64_t" where
  "searchAddressOffset T host rd AddrOffset =
     (case (getAddrOffsets host rd :: 'a word list) of
        [] \<Rightarrow> Inl NotFound
      | x # _ \<Rightarrow>
          if AddrOffset < ucast x then Inl NotFound
          else Inr (getAddressOffsetIndex T host rd AddrOffset))"

definition getAddressIndex ::
  "endianness \<Rightarrow> GsymReader \<Rightarrow> uint64_t \<Rightarrow> LookupError + uint64_t" where
  "getAddressIndex host rd Addr =
     (if Addr < BaseAddress (Hdr rd) then Inl BelowRange
      else
        (let AddrOffset = Addr - BaseAddress (Hdr rd) in
         case AddrOffSize (Hdr rd) of
           Width1 \<Rightarrow> searchAddressOffset TYPE(8) host rd AddrOffset
         | Width2 \<Rightarrow> searchAddressOffset TYPE(16) host rd AddrOffset
         | Width4 \<Rightarrow> searchAddressOffset TYPE(32) host rd AddrOffset
         | Width8 \<Rightarrow> searchAddressOffset TYPE(64) host rd AddrOffset))"

section \<open>Well-formed tables and example readers\<close>

text \<open>
  The element types the reader instantiates the templates at: \<^verbatim>\<open>uint8_t\<close>, \<^verbatim>\<open>uint16_t\<close>,
  \<^verbatim>\<open>uint32_t\<close> and \<^verbatim>\<open>uint64_t\<close>.
\<close>

definition offset_type :: "'a::len itself \<Rightarrow> bool" where
  "offset_type T = (LENGTH('a) \<in> {8, 16, 32, 64})"

text \<open>The raw table, read at type \<^verbatim>\<open>T\<close>, is sorted ascending (non-decreasing).\<close>

definition sorted_table :: "'a::len itself \<Rightarrow> endianness \<Rightarrow> GsymReader \<Rightarrow> bool" where
  "sorted_table T host rd = sorted (getAddrOffsets host rd :: 'a word list)"

text \<open>No logical address \<open>BaseAddress + offset\<close> of the table exceeds 64 bits.\<close>

definition no_wrap :: "'a::len itself \<Rightarrow> endianness \<Rightarrow> GsymReader \<Rightarrow> bool" where
  "no_wrap T host rd =
     (\<forall>x \<in> set (getAddrOffsets host rd :: 'a word list).
        unat (BaseAddress (Hdr rd)) + unat x < 2 ^ 64)"

text \<open>
  The spec's scenario: base address \<open>0x1000\<close>, two-byte offsets \<open>0x00, 0x10, 0x50\<close> stored
  little-endian, info offsets \<open>100, 200, 300\<close>, and the string table \<^verbatim>\<open>"\0main\0foo\0"\<close>.
\<close>

definition example_reader :: GsymReader where
  "example_reader =
     \<lparr>Endian = little,
      Hdr = \<lparr>BaseAddress = 0x1000, AddrOffSize = Width2\<rparr>,
      AddrOffsets = [0x00, 0x00, 0x10, 0x00, 0x50, 0x00],
      AddrInfoOffsets = [100, 200, 300],
      Files = [\<lparr>Dir = 0, Base = 1\<rparr>, \<lparr>Dir = 0, Base = 6\<rparr>],
      StrTab = CHR 0x00 # ''main'' @ CHR 0x00 # ''foo'' @ [CHR 0x00]\<rparr>"

text \<open>A table of one-byte offsets in which two consecutive entries share the value 5.\<close>

definition duplicate_reader :: GsymReader where
  "duplicate_reader =
     \<lparr>Endian = little,
      Hdr = \<lparr>BaseAddress = 0x1000, AddrOffSize = Width1\<rparr>,
      AddrOffsets = [5, 5, 9],
      AddrInfoOffsets = [100, 200, 300],
      Files = [],
      StrTab = []\<rparr>"

section \<open>Conversions and the search on a sorted table\<close>

lemma unat_ucast_uint64:
  fixes x :: "'a::len word"
  assumes "LENGTH('a) \<le> 64"
  shows "unat (ucast x :: uint64_t) = unat x"
proof -
  have "unat x < 2 ^ LENGTH('a)" by (rule unsigned_less)
  also have "(2::nat) ^ LENGTH('a) \<le> 2 ^ 64"
    using assms by (intro power_increasing) simp_all
  finally have "unat x < 2 ^ 64" .
  then show ?thesis
    by (simp add: unsigned_ucast_eq take_bit_nat_eq_self)
qed

lemma ucast_less_iff:
  fixes x :: "'a::len word" and v :: uint64_t
  assumes "LENGTH('a) \<le> 64"
  shows "(ucast x < v) = (unat x < unat v)"
  by (simp add: word_less_nat_alt unat_ucast_uint64 [OF assms])

lemma less_ucast_iff:
  fixes x :: "'a::len word" and v :: uint64_t
  assumes "LENGTH('a) \<le> 64"
  shows "(v < ucast x) = (unat v < unat x)"
  by (simp add: word_less_nat_alt unat_ucast_uint64 [OF assms])

lemma sorted_unat_mono:
  fixes xs :: "'a::len word list"
  assumes "sorted xs" "i \<le> j" "j < length xs"
  shows "unat (xs ! i) \<le> unat (xs ! j)"
  using sorted_nth_mono [OF assms] by (simp add: word_le_nat_alt)

lemma lower_bound_loop_spec:
  fixes xs :: "'a::len word list"
  assumes "LENGTH('a) \<le> 64" "sorted xs" "first + len \<le> length xs"
    and "\<forall>j<first. unat (xs ! j) < unat val"
    and "\<forall>j. first + len \<le> j \<and> j < length xs \<longrightarrow> unat val \<le> unat (xs ! j)"
  shows "lower_bound_loop xs val first len \<le> length xs
    \<and> (\<forall>j<lower_bound_loop xs val first len. unat (xs ! j) < unat val)
    \<and> (\<forall>j. lower_bound_loop xs val first len \<le> j \<and> j < length xs \<longrightarrow> unat val \<le> unat (xs ! j))"
  using assms
proof (induction xs val first len rule: lower_bound_loop.induct)
  case (1 xs val first len)
  show ?case
  proof (cases "0 < len")
    case False
    with "1.prems" show ?thesis by simp
  next
    case True
    define half where "half = len div 2"
    define middle where "middle = first + half"
    have mid: "middle < length xs" "half < len"
      using True "1.prems"(3) by (auto simp: middle_def half_def)
    show ?thesis
    proof (cases "ucast (xs ! middle) < val")
      case lt: True
      then have m: "unat (xs ! middle) < unat val"
        using "1.prems"(1) by (simp add: ucast_less_iff)
      have below: "\<forall>j<middle + 1. unat (xs ! j) < unat val"
      proof (intro allI impI)
        fix j assume "j < middle + 1"
        then have "unat (xs ! j) \<le> unat (xs ! middle)"
          using sorted_unat_mono [OF "1.prems"(2), of j middle] mid by simp
        with m show "unat (xs ! j) < unat val" by simp
      qed
      have eq: "middle + 1 + (len - half - 1) = first + len"
        using mid by (simp add: middle_def)
      have "lower_bound_loop xs val (middle + 1) (len - half - 1) \<le> length xs
        \<and> (\<forall>j<lower_bound_loop xs val (middle + 1) (len - half - 1). unat (xs ! j) < unat val)
        \<and> (\<forall>j. lower_bound_loop xs val (middle + 1) (len - half - 1) \<le> j \<and> j < length xs
              \<longrightarrow> unat val \<le> unat (xs ! j))"
        using "1.IH"(1) [OF True half_def middle_def lt "1.prems"(1,2)] below "1.prems"(3,5) eq
        by simp
      moreover have "lower_bound_loop xs val first len
          = lower_bound_loop xs val (middle + 1) (len - half - 1)"
        using True lt by (subst lower_bound_loop.simps) (simp add: Let_def half_def middle_def)
      ultimately show ?thesis by simp
    next
      case ge: False
      then have m: "unat val \<le> unat (xs ! middle)"
        using "1.prems"(1) by (simp add: ucast_less_iff)
      have above: "\<forall>j. first + half \<le> j \<and> j < length xs \<longrightarrow> unat val \<le> unat (xs ! j)"
      proof (intro allI impI)
        fix j assume "first + half \<le> j \<and> j < length xs"
        then have "unat (xs ! middle) \<le> unat (xs ! j)"
          using sorted_unat_mono [OF "1.prems"(2), of middle j] by (simp add: middle_def)
        with m show "unat val \<le> unat (xs ! j)" by simp
      qed
      have "lower_bound_loop xs val first half \<le> length xs
        \<and> (\<forall>j<lower_bound_loop xs val first half. unat (xs ! j) < unat val)
        \<and> (\<forall>j. lower_bound_loop xs val first half \<le> j \<and> j < length xs
              \<longrightarrow> unat val \<le> unat (xs ! j))"
        using "1.IH"(2) [OF True half_def middle_def ge "1.prems"(1,2)] above "1.prems"(3,4) mid
        by simp
      moreover have "lower_bound_loop xs val first len = lower_bound_loop xs val first half"
        using True ge by (subst lower_bound_loop.simps) (simp add: Let_def half_def middle_def)
      ultimately show ?thesis by simp
    qed
  qed
qed

lemma lower_bound_spec:
  fixes xs :: "'a::len word list"
  assumes "LENGTH('a) \<le> 64" "sorted xs"
  shows "lower_bound xs val \<le> length xs"
    and "\<And>j. j < lower_bound xs val \<Longrightarrow> unat (xs ! j) < unat val"
    and "\<And>j. lower_bound xs val \<le> j \<Longrightarrow> j < length xs \<Longrightarrow> unat val \<le> unat (xs ! j)"
  using lower_bound_loop_spec [OF assms, of 0 "length xs" val]
  by (simp_all add: lower_bound_def)


lemma offset_type_le64: "offset_type (T :: 'a::len itself) \<Longrightarrow> LENGTH('a) \<le> 64"
  by (auto simp: offset_type_def)

lemma offset_type_sizeof: "offset_type (T :: 'a::len itself) \<Longrightarrow> 0 < sizeof T"
  by (auto simp: offset_type_def sizeof_def)

lemma length_getAddrOffsets:
  "length (getAddrOffsets host rd :: 'a::len word list) = length (AddrOffsets rd) div sizeof TYPE('a)"
  by (simp add: getAddrOffsets_def Let_def)

lemma length_getAddrOffsets_le:
  "length (getAddrOffsets host rd :: 'a::len word list) \<le> length (AddrOffsets rd)"
  by (simp add: length_getAddrOffsets div_le_dividend)

lemma unat_of_nat_index:
  assumes "length (AddrOffsets rd) < 2 ^ 64"
    and "i \<le> length (getAddrOffsets host rd :: 'a::len word list)"
  shows "unat (word_of_nat i :: uint64_t) = i"
proof -
  have "i < 2 ^ 64"
    using assms length_getAddrOffsets_le [of host rd, where 'a='a] by simp
  then show ?thesis by (simp add: unat_of_nat)
qed

lemma getAddressOffsetIndex_hit:
  fixes T :: "'a::len itself"
  assumes ty: "offset_type T" and srt: "sorted_table T host rd"
    and k: "k < length (getAddrOffsets host rd :: 'a word list)"
    and t: "AddrOffset = ucast ((getAddrOffsets host rd :: 'a word list) ! k)"
  defines "xs \<equiv> getAddrOffsets host rd :: 'a word list"
  shows "getAddressOffsetIndex T host rd AddrOffset = word_of_nat (lower_bound xs AddrOffset)"
    and "lower_bound xs AddrOffset \<le> k"
    and "xs ! lower_bound xs AddrOffset = xs ! k"
    and "\<forall>j<lower_bound xs AddrOffset. xs ! j < xs ! k"
proof -
  have le: "LENGTH('a) \<le> 64" by (rule offset_type_le64 [OF ty])
  have s: "sorted xs" using srt by (simp add: sorted_table_def xs_def)
  have tk: "unat AddrOffset = unat (xs ! k)"
    using t by (simp add: unat_ucast_uint64 [OF le] xs_def)
  note lb = lower_bound_spec [OF le s, where val=AddrOffset]
  show lbk: "lower_bound xs AddrOffset \<le> k"
  proof (rule ccontr)
    assume "\<not> lower_bound xs AddrOffset \<le> k"
    then have "unat (xs ! k) < unat AddrOffset" using lb(2) [of k] by simp
    with tk show False by simp
  qed
  then have inr: "lower_bound xs AddrOffset < length xs" using k by (simp add: xs_def)
  have "unat (xs ! lower_bound xs AddrOffset) \<le> unat (xs ! k)"
    using sorted_unat_mono [OF s lbk] k by (simp add: xs_def)
  moreover have "unat AddrOffset \<le> unat (xs ! lower_bound xs AddrOffset)"
    using lb(3) [of "lower_bound xs AddrOffset"] inr by simp
  ultimately have eq: "unat (xs ! lower_bound xs AddrOffset) = unat (xs ! k)"
    using tk by simp
  then show "xs ! lower_bound xs AddrOffset = xs ! k" by (simp add: word_unat_eq_iff)
  show "\<forall>j<lower_bound xs AddrOffset. xs ! j < xs ! k"
    using lb(2) tk by (simp add: word_less_nat_alt)
  have "\<not> AddrOffset < ucast (xs ! lower_bound xs AddrOffset)"
    using eq tk by (simp add: less_ucast_iff [OF le])
  then show "getAddressOffsetIndex T host rd AddrOffset = word_of_nat (lower_bound xs AddrOffset)"
    using inr by (simp add: getAddressOffsetIndex_def Let_def xs_def)
qed

lemma lower_bound_Nil: "lower_bound ([] :: 'a::len word list) val = 0"
  by (simp add: lower_bound_def)

lemma lower_bound_loop_none_less:
  fixes xs :: "'a::len word list"
  assumes "\<forall>j. first \<le> j \<and> j < first + len \<longrightarrow> \<not> ucast (xs ! j) < val"
  shows "lower_bound_loop xs val first len = first"
  using assms
proof (induction xs val first len rule: lower_bound_loop.induct)
  case (1 xs val first len)
  show ?case
  proof (cases "0 < len")
    case False
    then show ?thesis by simp
  next
    case True
    define half where "half = len div 2"
    define middle where "middle = first + half"
    have h: "half < len" using True by (simp add: half_def)
    then have ge: "\<not> ucast (xs ! middle) < val"
      using "1.prems" by (simp add: middle_def)
    have "\<forall>j. first \<le> j \<and> j < first + half \<longrightarrow> \<not> ucast (xs ! j) < val"
      using "1.prems" h by simp
    then have "lower_bound_loop xs val first half = first"
      by (rule "1.IH"(2) [OF True half_def middle_def ge])
    moreover have "lower_bound_loop xs val first len = lower_bound_loop xs val first half"
      using True ge by (subst lower_bound_loop.simps) (simp add: Let_def half_def middle_def)
    ultimately show ?thesis by simp
  qed
qed

lemma getAddressOffsetIndex_below_all:
  fixes T :: "'a::len itself"
  assumes ty: "offset_type T"
    and c: "case (getAddrOffsets host rd :: 'a word list) of [] \<Rightarrow> True
            | x # rest \<Rightarrow> AddrOffset < ucast x \<and> (\<forall>y \<in> set rest. x \<le> y)"
  shows "getAddressOffsetIndex T host rd AddrOffset = - 1"
proof (cases "getAddrOffsets host rd :: 'a word list")
  case Nil
  then show ?thesis
    by (simp add: getAddressOffsetIndex_def lower_bound_Nil)
next
  case (Cons x rest)
  let ?xs = "getAddrOffsets host rd :: 'a word list"
  have le: "LENGTH('a) \<le> 64" by (rule offset_type_le64 [OF ty])
  from c Cons have lt: "AddrOffset < ucast x" and mn: "\<forall>y \<in> set ?xs. x \<le> y"
    by simp_all
  have "\<not> ucast (?xs ! j) < AddrOffset" if "j < length ?xs" for j
  proof -
    have "x \<le> ?xs ! j" using mn that by simp
    then have "unat x \<le> unat (?xs ! j)" by (simp add: word_le_nat_alt)
    moreover have "unat AddrOffset < unat x" using lt by (simp add: less_ucast_iff [OF le])
    ultimately show ?thesis by (simp add: ucast_less_iff [OF le])
  qed
  then have "lower_bound ?xs AddrOffset = 0"
    unfolding lower_bound_def by (intro lower_bound_loop_none_less) simp
  with lt Cons show ?thesis
    by (simp add: getAddressOffsetIndex_def Let_def)
qed

lemma lower_bound_first_hit:
  fixes T :: "'a::len itself"
  assumes ty: "offset_type T" and srt: "sorted_table T host rd"
    and i: "i < length (getAddrOffsets host rd :: 'a word list)"
    and t: "t = ucast ((getAddrOffsets host rd :: 'a word list) ! i)"
    and fst: "i = 0 \<or> unat ((getAddrOffsets host rd :: 'a word list) ! (i - 1))
                < unat ((getAddrOffsets host rd :: 'a word list) ! i)"
  shows "lower_bound (getAddrOffsets host rd :: 'a word list) t = i"
proof (rule ccontr)
  let ?xs = "getAddrOffsets host rd :: 'a word list"
  let ?lb = "lower_bound ?xs t"
  assume ne: "?lb \<noteq> i"
  have s: "sorted ?xs" using srt by (simp add: sorted_table_def)
  note hit = getAddressOffsetIndex_hit [OF ty srt i t]
  from ne hit(2) have l: "?lb \<le> i - 1" "0 < i" by simp_all
  with fst have strict: "unat (?xs ! (i - 1)) < unat (?xs ! i)" by simp
  have "i - 1 < length ?xs" using i by simp
  then have "unat (?xs ! ?lb) \<le> unat (?xs ! (i - 1))"
    using sorted_unat_mono [OF s l(1)] by simp
  with strict hit(3) show False by simp
qed

lemma getAddressOffsetIndex_pred:
  fixes T :: "'a::len itself"
  assumes ty: "offset_type T" and srt: "sorted_table T host rd"
    and i: "i < length (getAddrOffsets host rd :: 'a word list)"
    and lo: "unat ((getAddrOffsets host rd :: 'a word list) ! i) \<le> unat t"
    and hi: "i + 1 < length (getAddrOffsets host rd :: 'a word list)
             \<Longrightarrow> unat t < unat ((getAddrOffsets host rd :: 'a word list) ! (i + 1))"
    and fst: "unat ((getAddrOffsets host rd :: 'a word list) ! i) < unat t \<or> i = 0
             \<or> unat ((getAddrOffsets host rd :: 'a word list) ! (i - 1))
                < unat ((getAddrOffsets host rd :: 'a word list) ! i)"
  shows "getAddressOffsetIndex T host rd t = word_of_nat i"
proof -
  let ?xs = "getAddrOffsets host rd :: 'a word list"
  let ?lb = "lower_bound ?xs t"
  have le: "LENGTH('a) \<le> 64" by (rule offset_type_le64 [OF ty])
  have s: "sorted ?xs" using srt by (simp add: sorted_table_def)
  note lb = lower_bound_spec [OF le s, where val=t]
  show ?thesis
  proof (cases "unat (?xs ! i) < unat t")
    case True
    have a: "i < ?lb"
    proof (rule ccontr)
      assume "\<not> i < ?lb"
      then have "unat t \<le> unat (?xs ! i)" using lb(3) [of i] i by simp
      with True show False by simp
    qed
    have b: "?lb \<le> i + 1"
    proof (cases "i + 1 < length ?xs")
      case True
      show ?thesis
      proof (rule ccontr)
        assume "\<not> ?lb \<le> i + 1"
        then have "unat (?xs ! (i + 1)) < unat t" using lb(2) [of "i + 1"] by simp
        with hi [OF True] show False by simp
      qed
    next
      case False
      with lb(1) i show ?thesis by simp
    qed
    from a b have eq: "?lb = i + 1" by simp
    have "?lb = length ?xs \<or> t < ucast (?xs ! ?lb)"
    proof (cases "i + 1 < length ?xs")
      case True
      then show ?thesis using hi eq by (simp add: less_ucast_iff [OF le])
    next
      case False
      with i eq show ?thesis by simp
    qed
    then show ?thesis
      using eq by (simp add: getAddressOffsetIndex_def Let_def)
  next
    case False
    with lo have e: "unat t = unat (?xs ! i)" by simp
    have t: "t = ucast (?xs ! i)"
      using e by (simp add: word_unat_eq_iff unat_ucast_uint64 [OF le])
    note hit = getAddressOffsetIndex_hit [OF ty srt i t]
    have "?lb = i"
      using lower_bound_first_hit [OF ty srt i t] fst False by simp
    with hit(1) show ?thesis by simp
  qed
qed

lemma addressForIndex_Some_iff:
  fixes T :: "'a::len itself"
  shows "addressForIndex T host rd I = Some a \<longleftrightarrow>
    unat I < length (getAddrOffsets host rd :: 'a word list)
    \<and> a = ucast ((getAddrOffsets host rd :: 'a word list) ! unat I) + BaseAddress (Hdr rd)"
  by (auto simp: addressForIndex_def Let_def)

lemma unat_address:
  fixes T :: "'a::len itself"
  assumes ty: "offset_type T" and nw: "no_wrap T host rd"
    and i: "i < length (getAddrOffsets host rd :: 'a word list)"
  shows "unat (ucast ((getAddrOffsets host rd :: 'a word list) ! i) + BaseAddress (Hdr rd))
    = unat (BaseAddress (Hdr rd)) + unat ((getAddrOffsets host rd :: 'a word list) ! i)"
proof -
  let ?x = "(getAddrOffsets host rd :: 'a word list) ! i"
  have le: "LENGTH('a) \<le> 64" by (rule offset_type_le64 [OF ty])
  have u: "unat (ucast ?x :: uint64_t) = unat ?x"
    by (rule unat_ucast_uint64 [OF le])
  have "?x \<in> set (getAddrOffsets host rd :: 'a word list)"
    using i by simp
  then have "unat (BaseAddress (Hdr rd)) + unat ?x < 2 ^ 64"
    using nw unfolding no_wrap_def by blast
  then have "unat (ucast ?x :: uint64_t) + unat (BaseAddress (Hdr rd)) < 2 ^ LENGTH(64)"
    unfolding u by simp
  then have "unat (ucast ?x + BaseAddress (Hdr rd))
      = unat (ucast ?x :: uint64_t) + unat (BaseAddress (Hdr rd))"
    by (simp only: unat_add_lem [THEN iffD1])
  then show ?thesis by (simp add: unat_ucast_uint64 [OF le])
qed

lemma unat_offset:
  fixes a b :: uint64_t
  assumes "unat b + n \<le> unat a"
  shows "unat (a - b) = unat a - unat b"
proof -
  have "b \<le> a" using assms by (simp add: word_le_nat_alt)
  then show ?thesis by (simp add: unat_sub)
qed

section \<open>The example readers, evaluated\<close>

lemma getAddrOffsets_duplicate_reader:
  "(getAddrOffsets little duplicate_reader :: uint8_t list) = [5, 5, 9]"
  by (simp add: getAddrOffsets_def duplicate_reader_def sizeof_def load_def upt_conv_Cons)

lemma lower_bound_duplicate_5: "lower_bound [5, 5, 9 :: uint8_t] 5 = 0"
  by (simp add: lower_bound_def)

lemma getAddressOffsetIndex_duplicate_5:
  "getAddressOffsetIndex TYPE(8) little duplicate_reader 5 = 0"
  by (simp add: getAddressOffsetIndex_def getAddrOffsets_duplicate_reader lower_bound_duplicate_5)

lemma getAddrOffsets_example_reader:
  "(getAddrOffsets little example_reader :: uint16_t list) = [0, 0x10, 0x50]"
  by (simp add: getAddrOffsets_def example_reader_def sizeof_def load_def upt_conv_Cons)

lemma offset_type_simps:
  "offset_type TYPE(8)" "offset_type TYPE(16)" "offset_type TYPE(32)" "offset_type TYPE(64)"
  by (simp_all add: offset_type_def)

lemma example_reader_wf:
  "length (AddrOffsets example_reader) < 2 ^ 64"
  "sorted_table TYPE(16) little example_reader"
  "no_wrap TYPE(16) little example_reader"
  by (simp_all add: sorted_table_def no_wrap_def getAddrOffsets_example_reader)
     (simp_all add: example_reader_def)

lemma duplicate_reader_wf:
  "length (AddrOffsets duplicate_reader) < 2 ^ 64"
  "sorted_table TYPE(8) little duplicate_reader"
  "no_wrap TYPE(8) little duplicate_reader"
  by (simp_all add: sorted_table_def no_wrap_def getAddrOffsets_duplicate_reader)
     (simp_all add: duplicate_reader_def)

lemma addressForIndex_example_reader:
  "addressForIndex TYPE(16) little example_reader 0 = Some 0x1000"
  "addressForIndex TYPE(16) little example_reader 1 = Some 0x1010"
  "addressForIndex TYPE(16) little example_reader 2 = Some 0x1050"
  "addressForIndex TYPE(16) little example_reader 3 = None"
  by (simp_all add: addressForIndex_def getAddrOffsets_example_reader)
     (simp_all add: example_reader_def)

lemma addressForIndex_duplicate_reader:
  "addressForIndex TYPE(8) little duplicate_reader 0 = Some 0x1005"
  "addressForIndex TYPE(8) little duplicate_reader 1 = Some 0x1005"
  "addressForIndex TYPE(8) little duplicate_reader 2 = Some 0x1009"
  by (simp_all add: addressForIndex_def getAddrOffsets_duplicate_reader)
     (simp_all add: duplicate_reader_def)

lemma BaseAddress_readers:
  "BaseAddress (Hdr example_reader) = 0x1000" "BaseAddress (Hdr duplicate_reader) = 0x1000"
  by (simp_all add: example_reader_def duplicate_reader_def)

lemma getAddrOffsets_no_bytes:
  "(getAddrOffsets host (rd\<lparr>AddrOffsets := []\<rparr>) :: 'a::len word list) = []"
  by (simp add: getAddrOffsets_def)

section \<open>The tie-break among equal offsets\<close>

text \<open>
  Claim C1, as amended. On a sorted table, the search for an offset that the table stores
  (at an index \<open>k\<close>, and possibly at several consecutive indices) returns the first entry
  with that offset: the index returned is at most \<open>k\<close>, the entry at it equals the queried
  offset, and every entry before it is strictly smaller. So among consecutive entries that
  share one offset the search resolves to the smallest index, not the largest.
\<close>

theorem getAddressOffsetIndex_duplicates_first:
  fixes T :: "'a::len itself"
  assumes "offset_type T" and "length (AddrOffsets rd) < 2 ^ 64"
    and "sorted_table T host rd"
    and "k < length (getAddrOffsets host rd :: 'a word list)"
    and "AddrOffset = ucast ((getAddrOffsets host rd :: 'a word list) ! k)"
  shows "unat (getAddressOffsetIndex T host rd AddrOffset) \<le> k
    \<and> ucast ((getAddrOffsets host rd :: 'a word list)
          ! unat (getAddressOffsetIndex T host rd AddrOffset)) = AddrOffset
    \<and> (\<forall>j<unat (getAddressOffsetIndex T host rd AddrOffset).
          ucast ((getAddrOffsets host rd :: 'a word list) ! j) < AddrOffset)"
proof -
  let ?xs = "getAddrOffsets host rd :: 'a word list"
  let ?r = "lower_bound ?xs AddrOffset"
  note hit = getAddressOffsetIndex_hit [OF assms(1,3,4,5)]
  have "unat (word_of_nat ?r :: uint64_t) = ?r"
    using unat_of_nat_index [OF assms(2), of ?r host, where 'a='a] hit(2) assms(4) by simp
  then have r: "unat (getAddressOffsetIndex T host rd AddrOffset) = ?r"
    using hit(1) by simp
  have le: "LENGTH('a) \<le> 64" by (rule offset_type_le64 [OF assms(1)])
  have "\<forall>j<?r. ucast (?xs ! j) < AddrOffset"
    using hit(4) assms(5) by (simp add: ucast_less_iff [OF le] unat_ucast_uint64 [OF le] word_less_nat_alt)
  then show ?thesis
    using r hit(2,3) assms(5) by simp
qed

text \<open>
  Witness for C1: the one-byte table \<open>[5, 5, 9]\<close>, queried for 5 through its entry at index 1.
\<close>

theorem getAddressOffsetIndex_duplicates_first_witness:
  "offset_type TYPE(8) \<and> sorted_table TYPE(8) little duplicate_reader
    \<and> (getAddrOffsets little duplicate_reader :: uint8_t list) ! 0 = 5
    \<and> (getAddrOffsets little duplicate_reader :: uint8_t list) ! 1 = 5
    \<and> unat (getAddressOffsetIndex TYPE(8) little duplicate_reader 5) \<le> 1
    \<and> ucast ((getAddrOffsets little duplicate_reader :: uint8_t list)
          ! unat (getAddressOffsetIndex TYPE(8) little duplicate_reader 5)) = (5 :: uint64_t)"
proof -
  have 1: "offset_type TYPE(8)" by (simp add: offset_type_def)
  have 2: "length (AddrOffsets duplicate_reader) < 2 ^ 64" by (simp add: duplicate_reader_def)
  have 3: "sorted_table TYPE(8) little duplicate_reader"
    by (simp add: sorted_table_def getAddrOffsets_duplicate_reader)
  have 4: "1 < length (getAddrOffsets little duplicate_reader :: uint8_t list)"
    by (simp add: getAddrOffsets_duplicate_reader)
  have 5: "(5 :: uint64_t) = ucast ((getAddrOffsets little duplicate_reader :: uint8_t list) ! 1)"
    by (simp add: getAddrOffsets_duplicate_reader)
  have 6: "(getAddrOffsets little duplicate_reader :: uint8_t list) ! 0 = 5"
    "(getAddrOffsets little duplicate_reader :: uint8_t list) ! 1 = 5"
    by (simp_all add: getAddrOffsets_duplicate_reader)
  show ?thesis
    using getAddressOffsetIndex_duplicates_first [OF 1 2 3 4 5] 1 3 6 by blast
qed

text \<open>
  Counterexample to C1 as stated: in the sorted table \<open>[5, 5, 9]\<close> the entries 0 and 1 share
  the offset 5, and the search for 5 does not return the last of them, index 1 (it returns 0).
\<close>

theorem getAddressOffsetIndex_last_duplicate_counterexample:
  "sorted (getAddrOffsets little duplicate_reader :: uint8_t list)
   \<and> (getAddrOffsets little duplicate_reader :: uint8_t list) ! 0 = 5
   \<and> (getAddrOffsets little duplicate_reader :: uint8_t list) ! 1 = 5
   \<and> getAddressOffsetIndex TYPE(8) little duplicate_reader 5 = 0
   \<and> getAddressOffsetIndex TYPE(8) little duplicate_reader 5 \<noteq> 1"
  by (simp add: getAddrOffsets_duplicate_reader getAddressOffsetIndex_duplicate_5)

section \<open>Half-open intervals and the round trip\<close>

text \<open>
  The search step of the spec's \<^verbatim>\<open>index_for_address(a)\<close> is \<^verbatim>\<open>getAddressOffsetIndex<T>\<close> applied
  to \<open>a - BaseAddress\<close>: its parameter is documented as an address offset "that has already
  been computed by subtracting the gsym::Header::BaseAddress". \<^verbatim>\<open>address_at\<close> is
  \<^verbatim>\<open>addressForIndex<T>\<close>.
\<close>

text \<open>
  Claim C2, as amended. Take a sorted table none of whose addresses wraps around 64 bits, an
  in-range index \<open>I\<close> with address \<open>lo\<close>, and an address \<open>a\<close> with \<open>lo \<le> a\<close> that, when \<open>I\<close> has
  a successor, lies below the successor's address (for the final index there is no upper
  bound). If \<open>a\<close> lies strictly above \<open>lo\<close>, or entry \<open>I\<close> is the first entry with its address
  (\<open>I = 0\<close> or the address of entry \<open>I - 1\<close> is smaller), the search on \<open>a - BaseAddress\<close>
  returns \<open>I\<close>.
\<close>

theorem getAddressOffsetIndex_interval:
  fixes T :: "'a::len itself"
  assumes ty: "offset_type T" and len: "length (AddrOffsets rd) < 2 ^ 64"
    and srt: "sorted_table T host rd" and nw: "no_wrap T host rd"
    and lo: "addressForIndex T host rd I = Some lo"
    and a_lo: "lo \<le> a"
    and a_hi: "\<forall>hi. addressForIndex T host rd (I + 1) = Some hi \<longrightarrow> a < hi"
    and fst: "lo < a \<or> I = 0 \<or> (\<exists>p. addressForIndex T host rd (I - 1) = Some p \<and> p < lo)"
  shows "getAddressOffsetIndex T host rd (a - BaseAddress (Hdr rd)) = I"
proof -
  let ?xs = "getAddrOffsets host rd :: 'a word list"
  let ?b = "BaseAddress (Hdr rd)"
  let ?i = "unat I"
  from lo have i: "?i < length ?xs" and lo_eq: "lo = ucast (?xs ! ?i) + ?b"
    by (simp_all add: addressForIndex_Some_iff)
  have ulo: "unat lo = unat ?b + unat (?xs ! ?i)"
    using unat_address [OF ty nw i] lo_eq by simp
  have ba: "unat ?b + unat (?xs ! ?i) \<le> unat a"
    using a_lo ulo by (simp add: word_le_nat_alt)
  have ut: "unat (a - ?b) = unat a - unat ?b"
    by (rule unat_offset [OF ba])
  have 1: "unat (?xs ! ?i) \<le> unat (a - ?b)"
    using ba ut by arith
  have lenxs: "length ?xs < 2 ^ 64"
    using length_getAddrOffsets_le [of host rd, where 'a='a] len by simp
  have 2: "unat (a - ?b) < unat (?xs ! (?i + 1))" if s: "?i + 1 < length ?xs"
  proof -
    have "?i + 1 < 2 ^ 64" using s lenxs by arith
    then have "unat I + unat (1 :: uint64_t) < 2 ^ LENGTH(64)" by simp
    then have "unat (I + 1) = unat I + unat (1 :: uint64_t)"
      by (simp only: unat_add_lem [THEN iffD1])
    then have u: "unat (I + 1) = ?i + 1" by simp
    then have "addressForIndex T host rd (I + 1) = Some (ucast (?xs ! (?i + 1)) + ?b)"
      using s by (simp add: addressForIndex_def)
    with a_hi have "a < ucast (?xs ! (?i + 1)) + ?b" by simp
    then have "unat a < unat ?b + unat (?xs ! (?i + 1))"
      using unat_address [OF ty nw s] by (simp add: word_less_nat_alt)
    with ut ba show ?thesis by arith
  qed
  have 3: "unat (?xs ! ?i) < unat (a - ?b) \<or> ?i = 0
      \<or> unat (?xs ! (?i - 1)) < unat (?xs ! ?i)"
  proof -
    consider "lo < a" | "I = 0" | "I \<noteq> 0" "\<exists>p. addressForIndex T host rd (I - 1) = Some p \<and> p < lo"
      using fst by blast
    then show ?thesis
    proof cases
      case 1
      then have "unat ?b + unat (?xs ! ?i) < unat a"
        using ulo by (simp add: word_less_nat_alt)
      with ut show ?thesis by arith
    next
      case 2
      then show ?thesis by simp
    next
      case 3
      from 3(1) have pos: "0 < ?i" by (simp add: unat_gt_0)
      then have "unat (1 :: uint64_t) \<le> ?i" by simp
      then have "1 \<le> I" by (simp only: word_le_nat_alt)
      then have u: "unat (I - 1) = ?i - 1" by (simp add: unat_sub)
      then have j: "?i - 1 < length ?xs" using i by simp
      from 3(2) obtain p where p: "addressForIndex T host rd (I - 1) = Some p" "p < lo"
        by blast
      from p(1) u have "p = ucast (?xs ! (?i - 1)) + ?b"
        by (simp add: addressForIndex_Some_iff)
      then have "unat p = unat ?b + unat (?xs ! (?i - 1))"
        using unat_address [OF ty nw j] by simp
      with p(2) ulo show ?thesis by (simp add: word_less_nat_alt)
    qed
  qed
  have "getAddressOffsetIndex T host rd (a - ?b) = word_of_nat ?i"
    using getAddressOffsetIndex_pred [OF ty srt i 1 _ 3] 2 by simp
  then show ?thesis by simp
qed

text \<open>
  Witness for C2, the spec's scenario: \<open>0x1012\<close> lies in \<open>[0x1010, 0x1050)\<close> and resolves to
  index 1; \<open>0x2000\<close> lies above the last address \<open>0x1050\<close> and resolves to the last index 2.
\<close>

theorem getAddressOffsetIndex_interval_witness:
  "addressForIndex TYPE(16) little example_reader 1 = Some 0x1010
   \<and> addressForIndex TYPE(16) little example_reader 2 = Some 0x1050
   \<and> getAddressOffsetIndex TYPE(16) little example_reader
        (0x1012 - BaseAddress (Hdr example_reader)) = 1
   \<and> addressForIndex TYPE(16) little example_reader 3 = None
   \<and> getAddressOffsetIndex TYPE(16) little example_reader
        (0x2000 - BaseAddress (Hdr example_reader)) = 2"
proof -
  note wf = offset_type_simps(2) example_reader_wf
  have "getAddressOffsetIndex TYPE(16) little example_reader
        (0x1012 - BaseAddress (Hdr example_reader)) = 1"
    by (rule getAddressOffsetIndex_interval [OF wf addressForIndex_example_reader(2)])
       (simp_all add: addressForIndex_example_reader)
  moreover have "getAddressOffsetIndex TYPE(16) little example_reader
        (0x2000 - BaseAddress (Hdr example_reader)) = 2"
    by (rule getAddressOffsetIndex_interval [OF wf addressForIndex_example_reader(3)])
       (simp_all add: addressForIndex_example_reader)
  ultimately show ?thesis by (simp add: addressForIndex_example_reader)
qed

text \<open>
  Counterexample to C2 as stated: in the sorted table \<open>[5, 5, 9]\<close> with base \<open>0x1000\<close>, index 1
  has a successor and \<open>a = 0x1005\<close> satisfies \<open>address_at(1) \<le> a < address_at(2)\<close>, yet the
  search does not return 1 (it returns 0).
\<close>

theorem getAddressOffsetIndex_interval_counterexample:
  "sorted_table TYPE(8) little duplicate_reader
   \<and> no_wrap TYPE(8) little duplicate_reader
   \<and> addressForIndex TYPE(8) little duplicate_reader 1 = Some 0x1005
   \<and> addressForIndex TYPE(8) little duplicate_reader 2 = Some 0x1009
   \<and> (0x1005 :: uint64_t) \<le> 0x1005 \<and> (0x1005 :: uint64_t) < 0x1009
   \<and> getAddressOffsetIndex TYPE(8) little duplicate_reader
        (0x1005 - BaseAddress (Hdr duplicate_reader)) \<noteq> 1"
  by (simp add: duplicate_reader_wf addressForIndex_duplicate_reader BaseAddress_readers
      getAddressOffsetIndex_duplicate_5)

text \<open>
  Claim C3, as amended. In a sorted table, the search on the address \<open>a\<close> stored at an in-range
  index \<open>I\<close> returns the smallest index whose entry equals entry \<open>I\<close>: the result is at most
  \<open>I\<close>, the address at the result is \<open>a\<close>, and every entry before the result is smaller than
  entry \<open>I\<close>. The result is \<open>I\<close> itself whenever entry \<open>I\<close> is the first with its offset
  (\<open>I = 0\<close> or entry \<open>I - 1\<close> is smaller), so for every index of a strictly increasing table.
\<close>

theorem getAddressOffsetIndex_round_trip:
  fixes T :: "'a::len itself"
  assumes ty: "offset_type T" and len: "length (AddrOffsets rd) < 2 ^ 64"
    and srt: "sorted_table T host rd"
    and a: "addressForIndex T host rd I = Some a"
  shows "getAddressOffsetIndex T host rd (a - BaseAddress (Hdr rd)) \<le> I
    \<and> addressForIndex T host rd (getAddressOffsetIndex T host rd (a - BaseAddress (Hdr rd)))
        = Some a
    \<and> (\<forall>j < unat (getAddressOffsetIndex T host rd (a - BaseAddress (Hdr rd))).
          (getAddrOffsets host rd :: 'a word list) ! j
            < (getAddrOffsets host rd :: 'a word list) ! unat I)
    \<and> (I = 0 \<or> (getAddrOffsets host rd :: 'a word list) ! (unat I - 1)
                  < (getAddrOffsets host rd :: 'a word list) ! unat I
        \<longrightarrow> getAddressOffsetIndex T host rd (a - BaseAddress (Hdr rd)) = I)"
proof -
  let ?xs = "getAddrOffsets host rd :: 'a word list"
  let ?b = "BaseAddress (Hdr rd)"
  let ?i = "unat I"
  let ?r = "getAddressOffsetIndex T host rd (a - ?b)"
  let ?lb = "lower_bound ?xs (a - ?b)"
  from a have i: "?i < length ?xs" and a_eq: "a = ucast (?xs ! ?i) + ?b"
    by (simp_all add: addressForIndex_Some_iff)
  have t: "a - ?b = ucast (?xs ! ?i)" using a_eq by simp
  note hit = getAddressOffsetIndex_hit [OF ty srt i t]
  have ulb: "unat (word_of_nat ?lb :: uint64_t) = ?lb"
    using unat_of_nat_index [OF len, of ?lb host, where 'a='a] hit(2) i by simp
  then have ur: "unat ?r = ?lb" using hit(1) by simp
  have lbl: "?lb < length ?xs" using hit(2) i by simp
  have 1: "?r \<le> I" using ur hit(2) by (simp add: word_le_nat_alt)
  have 2: "addressForIndex T host rd ?r = Some a"
    using ur lbl hit(3) a_eq by (simp add: addressForIndex_def)
  have 3: "\<forall>j < unat ?r. ?xs ! j < ?xs ! ?i"
    using hit(4) ur by simp
  have 4: "?r = I" if c: "I = 0 \<or> ?xs ! (?i - 1) < ?xs ! ?i"
  proof -
    from c have "?i = 0 \<or> unat (?xs ! (?i - 1)) < unat (?xs ! ?i)"
      by (auto simp: word_less_nat_alt)
    then have "?lb = ?i" by (rule lower_bound_first_hit [OF ty srt i t])
    with hit(1) show ?thesis by simp
  qed
  from 1 2 3 4 show ?thesis by blast
qed

text \<open>Witness for C3, the spec's scenario: the address \<open>0x1050\<close> at index 2 resolves to 2.\<close>

theorem getAddressOffsetIndex_round_trip_witness:
  "addressForIndex TYPE(16) little example_reader 2 = Some 0x1050
   \<and> getAddressOffsetIndex TYPE(16) little example_reader
        (0x1050 - BaseAddress (Hdr example_reader)) = 2"
proof -
  note wf = offset_type_simps(2) example_reader_wf(1,2)
  have "(getAddrOffsets little example_reader :: uint16_t list) ! (unat (2 :: size_t) - 1)
      < (getAddrOffsets little example_reader :: uint16_t list) ! unat (2 :: size_t)"
    by (simp add: getAddrOffsets_example_reader)
  then show ?thesis
    using getAddressOffsetIndex_round_trip [OF wf addressForIndex_example_reader(3)]
      addressForIndex_example_reader(3)
    by blast
qed

text \<open>
  Counterexample to C3 as stated: in the sorted table \<open>[5, 5, 9]\<close> with base \<open>0x1000\<close> the
  address stored at index 1 is \<open>0x1005\<close>, and looking it up yields index 0, not 1.
\<close>

theorem getAddressOffsetIndex_round_trip_counterexample:
  "sorted_table TYPE(8) little duplicate_reader
   \<and> addressForIndex TYPE(8) little duplicate_reader 1 = Some 0x1005
   \<and> getAddressOffsetIndex TYPE(8) little duplicate_reader
        (0x1005 - BaseAddress (Hdr duplicate_reader)) = 0
   \<and> getAddressOffsetIndex TYPE(8) little duplicate_reader
        (0x1005 - BaseAddress (Hdr duplicate_reader)) \<noteq> 1"
  by (simp add: duplicate_reader_wf addressForIndex_duplicate_reader BaseAddress_readers
      getAddressOffsetIndex_duplicate_5)

section \<open>The unguarded step back\<close>

text \<open>
  Claim C5. When the table read at type \<^verbatim>\<open>T\<close> is empty, or its first entry is its smallest
  and the queried offset is strictly smaller than it, \<^verbatim>\<open>getAddressOffsetIndex<T>\<close> steps back
  from the beginning of the table and returns \<open>2^64 - 1\<close>. That value is not an index into
  the table (\<^verbatim>\<open>addressForIndex<T>\<close> rejects it); the function signals no error.
\<close>

theorem getAddressOffsetIndex_unguarded:
  fixes T :: "'a::len itself"
  assumes "offset_type T" and "length (AddrOffsets rd) < 2 ^ 64"
    and "case (getAddrOffsets host rd :: 'a word list) of [] \<Rightarrow> True
         | x # rest \<Rightarrow> AddrOffset < ucast x \<and> (\<forall>y \<in> set rest. x \<le> y)"
  shows "unat (getAddressOffsetIndex T host rd AddrOffset) = 2 ^ 64 - 1
    \<and> \<not> unat (getAddressOffsetIndex T host rd AddrOffset)
          < length (getAddrOffsets host rd :: 'a word list)
    \<and> addressForIndex T host rd (getAddressOffsetIndex T host rd AddrOffset) = None"
proof -
  have r: "getAddressOffsetIndex T host rd AddrOffset = - 1"
    by (rule getAddressOffsetIndex_below_all [OF assms(1,3)])
  have u: "unat (- 1 :: uint64_t) = 2 ^ 64 - 1"
    by (simp add: unsigned_minus_1_eq_mask mask_eq_exp_minus_1)
  have "length (getAddrOffsets host rd :: 'a word list) < 2 ^ 64"
    using length_getAddrOffsets_le [of host rd, where 'a='a] assms(2) by simp
  then show ?thesis
    using r u by (simp add: addressForIndex_def)
qed

text \<open>
  Witness for C5: the offset 4 is below the first entry of \<open>[5, 5, 9]\<close>; and the same reader
  with no address bytes has an empty table.
\<close>

theorem getAddressOffsetIndex_unguarded_witness:
  "(getAddrOffsets little duplicate_reader :: uint8_t list) = [5, 5, 9]
   \<and> unat (getAddressOffsetIndex TYPE(8) little duplicate_reader 4) = 2 ^ 64 - 1
   \<and> (getAddrOffsets little (duplicate_reader\<lparr>AddrOffsets := []\<rparr>) :: uint8_t list) = []
   \<and> unat (getAddressOffsetIndex TYPE(8) little (duplicate_reader\<lparr>AddrOffsets := []\<rparr>) 4)
       = 2 ^ 64 - 1"
proof -
  have a: "case (getAddrOffsets little duplicate_reader :: uint8_t list) of [] \<Rightarrow> True
         | x # rest \<Rightarrow> (4 :: uint64_t) < ucast x \<and> (\<forall>y \<in> set rest. x \<le> y)"
    by (simp add: getAddrOffsets_duplicate_reader)
  have b: "case (getAddrOffsets little (duplicate_reader\<lparr>AddrOffsets := []\<rparr>) :: uint8_t list)
         of [] \<Rightarrow> True
         | x # rest \<Rightarrow> (4 :: uint64_t) < ucast x \<and> (\<forall>y \<in> set rest. x \<le> y)"
    by (simp add: getAddrOffsets_no_bytes)
  have c: "length (AddrOffsets (duplicate_reader\<lparr>AddrOffsets := []\<rparr>)) < 2 ^ 64" by simp
  show ?thesis
    using getAddressOffsetIndex_unguarded [OF offset_type_simps(1) duplicate_reader_wf(1) a]
      getAddressOffsetIndex_unguarded [OF offset_type_simps(1) c b]
    by (simp add: getAddrOffsets_duplicate_reader getAddrOffsets_no_bytes)
qed

section \<open>The typed view of the address bytes\<close>

lemma sizeof_offset_type: "offset_type (T :: 'a::len itself) \<Longrightarrow> sizeof T \<in> {1, 2, 4, 8}"
  by (auto simp: offset_type_def sizeof_def)

lemma sizeof_itself: "sizeof (T :: 'a::len itself) = sizeof TYPE('a)"
  by (simp add: sizeof_def)

lemma nth_getAddrOffsets:
  assumes "i < length (AddrOffsets rd) div sizeof TYPE('a::len)"
  shows "(getAddrOffsets host rd :: 'a word list) ! i
    = load host (take (sizeof TYPE('a)) (drop (i * sizeof TYPE('a)) (AddrOffsets rd)))"
  using assms by (simp add: getAddrOffsets_def Let_def)

lemma element_inside:
  fixes n sz i :: nat
  assumes "i < n div sz"
  shows "(i + 1) * sz \<le> n"
proof -
  have "i + 1 \<le> n div sz" using assms by simp
  then have "(i + 1) * sz \<le> (n div sz) * sz" by (rule mult_le_mono1)
  also have "\<dots> \<le> n" by simp
  finally show ?thesis .
qed

lemma sizeof_simps:
  "sizeof TYPE(8) = 1" "sizeof TYPE(16) = 2" "sizeof TYPE(32) = 4" "sizeof TYPE(64) = 8"
  by (simp_all add: sizeof_def)

lemma AddrOffsets_example_reader:
  "AddrOffsets example_reader = [0x00, 0x00, 0x10, 0x00, 0x50, 0x00]"
  by (simp add: example_reader_def)

lemma Files_example_reader:
  "Files example_reader = [\<lparr>Dir = 0, Base = 1\<rparr>, \<lparr>Dir = 0, Base = 6\<rparr>]"
  by (simp add: example_reader_def)

text \<open>
  Claim C10. At each element type of 1, 2, 4 or 8 bytes, \<^verbatim>\<open>getAddrOffsets<T>\<close> has exactly
  \<open>length bytes div sizeof(T)\<close> elements; element \<open>i\<close> is read from the \<open>sizeof(T)\<close> bytes that
  start at \<open>i * sizeof(T)\<close> and end inside the byte array; and the bytes after the last whole
  element do not matter: cutting them off leaves the array unchanged.
\<close>

theorem getAddrOffsets_length:
  fixes T :: "'a::len itself"
  assumes "offset_type T"
  shows "sizeof T \<in> {1, 2, 4, 8}
    \<and> length (getAddrOffsets host rd :: 'a word list) = length (AddrOffsets rd) div sizeof T
    \<and> (\<forall>i < length (getAddrOffsets host rd :: 'a word list).
          (i + 1) * sizeof T \<le> length (AddrOffsets rd)
          \<and> (getAddrOffsets host rd :: 'a word list) ! i
              = load host (take (sizeof T) (drop (i * sizeof T) (AddrOffsets rd))))
    \<and> (getAddrOffsets host
          (rd\<lparr>AddrOffsets :=
                take (length (AddrOffsets rd) div sizeof T * sizeof T) (AddrOffsets rd)\<rparr>)
          :: 'a word list) = getAddrOffsets host rd"
  unfolding sizeof_itself [of T]
proof -
  let ?sz = "sizeof TYPE('a)"
  let ?n = "length (AddrOffsets rd)"
  have ty: "offset_type TYPE('a)" using assms by (simp add: offset_type_def)
  have sz: "0 < ?sz" by (rule offset_type_sizeof [OF ty])
  have 1: "?sz \<in> {1, 2, 4, 8}" by (rule sizeof_offset_type [OF ty])
  have 2: "length (getAddrOffsets host rd :: 'a word list) = ?n div ?sz"
    by (rule length_getAddrOffsets)
  have le: "?n div ?sz * ?sz \<le> ?n" by simp
  have 3: "(i + 1) * ?sz \<le> ?n
      \<and> (getAddrOffsets host rd :: 'a word list) ! i
          = load host (take ?sz (drop (i * ?sz) (AddrOffsets rd)))"
    if "i < length (getAddrOffsets host rd :: 'a word list)" for i
    using that element_inside [of i ?n ?sz] nth_getAddrOffsets [of i rd host, where 'a='a]
    by (simp add: length_getAddrOffsets)
  have 4: "(getAddrOffsets host
          (rd\<lparr>AddrOffsets := take (?n div ?sz * ?sz) (AddrOffsets rd)\<rparr>) :: 'a word list)
      = getAddrOffsets host rd"
  proof (rule nth_equalityI)
    show l: "length (getAddrOffsets host
          (rd\<lparr>AddrOffsets := take (?n div ?sz * ?sz) (AddrOffsets rd)\<rparr>) :: 'a word list)
      = length (getAddrOffsets host rd :: 'a word list)"
      using sz le by (simp add: length_getAddrOffsets min_absorb2)
    fix i
    assume "i < length (getAddrOffsets host
          (rd\<lparr>AddrOffsets := take (?n div ?sz * ?sz) (AddrOffsets rd)\<rparr>) :: 'a word list)"
    then have i: "i < ?n div ?sz" using l by (simp add: length_getAddrOffsets)
    have inside: "(i + 1) * ?sz \<le> ?n div ?sz * ?sz"
      using i by (intro mult_le_mono1) simp
    have "take ?sz (drop (i * ?sz) (take (?n div ?sz * ?sz) (AddrOffsets rd)))
        = take ?sz (drop (i * ?sz) (AddrOffsets rd))"
    proof -
      have "drop (i * ?sz) (take (?n div ?sz * ?sz) (AddrOffsets rd))
          = take (?n div ?sz * ?sz - i * ?sz) (drop (i * ?sz) (AddrOffsets rd))"
        by (simp add: drop_take)
      moreover have "?sz \<le> ?n div ?sz * ?sz - i * ?sz" using inside by simp
      ultimately show ?thesis by (simp add: min_absorb1)
    qed
    then show "(getAddrOffsets host
          (rd\<lparr>AddrOffsets := take (?n div ?sz * ?sz) (AddrOffsets rd)\<rparr>) :: 'a word list) ! i
        = (getAddrOffsets host rd :: 'a word list) ! i"
      using i sz le by (simp add: getAddrOffsets_def Let_def min_absorb2)
  qed
  from 1 2 3 4 show "?sz \<in> {1, 2, 4, 8}
    \<and> length (getAddrOffsets host rd :: 'a word list) = ?n div ?sz
    \<and> (\<forall>i < length (getAddrOffsets host rd :: 'a word list).
          (i + 1) * ?sz \<le> ?n
          \<and> (getAddrOffsets host rd :: 'a word list) ! i
              = load host (take ?sz (drop (i * ?sz) (AddrOffsets rd))))
    \<and> (getAddrOffsets host
          (rd\<lparr>AddrOffsets := take (?n div ?sz * ?sz) (AddrOffsets rd)\<rparr>) :: 'a word list)
        = getAddrOffsets host rd"
    by blast
qed

text \<open>
  Witness for C10: six bytes read as \<^verbatim>\<open>uint32_t\<close> give one element, made of the first four
  bytes; the two trailing bytes are ignored.
\<close>

theorem getAddrOffsets_length_witness:
  "length (AddrOffsets example_reader) = 6
   \<and> length (getAddrOffsets little example_reader :: uint32_t list) = 1
   \<and> (getAddrOffsets little example_reader :: uint32_t list) ! 0 = load little [0x00, 0x00, 0x10, 0x00]
   \<and> (getAddrOffsets little
         (example_reader\<lparr>AddrOffsets := [0x00, 0x00, 0x10, 0x00]\<rparr>) :: uint32_t list)
       = getAddrOffsets little example_reader"
  using getAddrOffsets_length [OF offset_type_simps(3), of little example_reader]
  by (simp add: sizeof_simps AddrOffsets_example_reader)

section \<open>The address at an index\<close>

text \<open>
  The value that \<^verbatim>\<open>load\<close> reads from a run of bytes, in terms of the bytes themselves: byte
  \<open>k\<close> of the element has weight \<open>256^k\<close> on a little-endian host and \<open>256^(sizeof(T) - 1 - k)\<close>
  on a big-endian one.
\<close>

lemma horner_sum_bytes_less:
  fixes ys :: "uint8_t list"
  shows "horner_sum unat 256 ys < 256 ^ length ys"
proof (induction ys)
  case Nil
  then show ?case by simp
next
  case (Cons y ys)
  have "unat y < 256" using unsigned_less [of y, where 'a=nat] by simp
  moreover have "horner_sum unat 256 ys + 1 \<le> 256 ^ length ys" using Cons.IH by simp
  then have "256 * (horner_sum unat 256 ys + 1) \<le> 256 * 256 ^ length ys"
    by (rule mult_le_mono2)
  ultimately show ?case by simp
qed

lemma foldl_bytes_of_nat:
  fixes bs :: "uint8_t list"
  shows "(foldl (\<lambda>acc b. push_bit 8 acc + ucast b) 0 bs :: 'a::len word)
    = word_of_nat (horner_sum unat 256 (rev bs))"
proof (induction bs rule: rev_induct)
  case Nil
  then show ?case by simp
next
  case (snoc b bs)
  have "(ucast b :: 'a word) = word_of_nat (unat b)" by simp
  then show ?case
    using snoc.IH by (simp add: push_bit_eq_mult mult.commute)
qed

lemma load_of_nat:
  "(load host bs :: 'a::len word)
    = word_of_nat (horner_sum unat 256 (case host of little \<Rightarrow> bs | big \<Rightarrow> rev bs))"
  by (cases host) (simp_all add: load_def foldl_bytes_of_nat)

lemma horner_sum_nth:
  fixes ys :: "uint8_t list"
  shows "horner_sum unat 256 ys = (\<Sum>k \<in> {..<length ys}. unat (ys ! k) * 256 ^ k)"
  by (simp add: horner_sum_eq_sum atLeast0LessThan)

lemma horner_sum_stored:
  fixes bytes :: "uint8_t list"
  assumes "off + sz \<le> length bytes"
  shows "horner_sum unat 256
      (case host of little \<Rightarrow> take sz (drop off bytes) | big \<Rightarrow> rev (take sz (drop off bytes)))
    = (\<Sum>k \<in> {..<sz}. unat (bytes ! (off + k)) * 256 ^ (case host of little \<Rightarrow> k | big \<Rightarrow> sz - 1 - k))"
proof -
  define c where "c = take sz (drop off bytes)"
  have l: "length c = sz" using assms by (simp add: c_def)
  have n: "c ! k = bytes ! (off + k)" if "k < sz" for k
    using that assms by (simp add: c_def)
  show ?thesis
  proof (cases host)
    case little
    have "horner_sum unat 256 c = (\<Sum>k \<in> {..<sz}. unat (c ! k) * 256 ^ k)"
      using horner_sum_nth [of c] by (simp only: l)
    also have "\<dots> = (\<Sum>k \<in> {..<sz}. unat (bytes ! (off + k)) * 256 ^ k)"
      by (rule sum.cong) (simp_all add: n)
    finally show ?thesis using little by (simp add: c_def)
  next
    case big
    have lr: "length (rev c) = sz" using l by simp
    have "horner_sum unat 256 (rev c) = (\<Sum>k \<in> {..<sz}. unat (rev c ! k) * 256 ^ k)"
      using horner_sum_nth [of "rev c"] by (simp only: lr)
    also have "\<dots> = (\<Sum>k \<in> {..<sz}. unat (c ! (sz - Suc k)) * 256 ^ k)"
      by (rule sum.cong) (simp_all add: rev_nth l)
    also have "\<dots> = (\<Sum>k \<in> {..<sz}. unat (c ! (sz - Suc (sz - Suc k))) * 256 ^ (sz - Suc k))"
      by (rule sum.nat_diff_reindex [symmetric])
    also have "\<dots> = (\<Sum>k \<in> {..<sz}. unat (bytes ! (off + k)) * 256 ^ (sz - 1 - k))"
      by (rule sum.cong) (simp_all add: n)
    finally show ?thesis using big by (simp add: c_def)
  qed
qed

lemma unat_load_stored:
  fixes T :: "'a::len itself"
  assumes ty: "offset_type T"
    and i: "i < length (AddrOffsets rd) div sizeof TYPE('a)"
  shows "unat (load host (take (sizeof TYPE('a)) (drop (i * sizeof TYPE('a)) (AddrOffsets rd)))
            :: 'a word)
    = (\<Sum>k \<in> {..<sizeof TYPE('a)}. unat (AddrOffsets rd ! (i * sizeof TYPE('a) + k))
          * 256 ^ (case host of little \<Rightarrow> k | big \<Rightarrow> sizeof TYPE('a) - 1 - k))"
proof -
  let ?sz = "sizeof TYPE('a)"
  let ?c = "take ?sz (drop (i * ?sz) (AddrOffsets rd))"
  let ?ys = "case host of little \<Rightarrow> ?c | big \<Rightarrow> rev ?c"
  have inside: "i * ?sz + ?sz \<le> length (AddrOffsets rd)"
    using element_inside [OF i] by simp
  then have l: "length ?ys = ?sz" by (cases host) simp_all
  have bits: "LENGTH('a) = 8 * ?sz"
    using ty by (auto simp: offset_type_def sizeof_def)
  have "horner_sum unat 256 ?ys < 256 ^ length ?ys" by (rule horner_sum_bytes_less)
  also have "(256::nat) ^ length ?ys = 2 ^ LENGTH('a)"
    unfolding l bits by (simp add: power_mult)
  finally have "unat (word_of_nat (horner_sum unat 256 ?ys) :: 'a word) = horner_sum unat 256 ?ys"
    by (simp add: unat_of_nat)
  then have "unat (load host ?c :: 'a word) = horner_sum unat 256 ?ys"
    by (simp only: load_of_nat)
  then show ?thesis
    by (simp only: horner_sum_stored [OF inside])
qed

lemma sum_lessThan_2: "(\<Sum>k \<in> {..<(2::nat)}. f k) = f 0 + (f 1 :: nat)"
  by (simp add: numeral_2_eq_2)

text \<open>
  Claim C6. \<^verbatim>\<open>addressForIndex<T>(Index)\<close> returns the base address plus the offset stored at
  \<open>Index\<close> when \<open>Index\<close> is below the number of elements, and \<^verbatim>\<open>llvm::None\<close> when it is not.
  The offset stored at \<open>Index\<close> is the unsigned number that the \<open>sizeof(T)\<close> bytes from
  \<open>Index * sizeof(T)\<close> on spell in the host's byte order, and the sum is the 64-bit sum of the
  code: its value is the base address plus that number, modulo \<open>2^64\<close>.
\<close>

theorem addressForIndex_spec:
  fixes T :: "'a::len itself"
  assumes "offset_type T"
  shows "(unat Index < length (AddrOffsets rd) div sizeof T \<longrightarrow>
      addressForIndex T host rd Index
        = Some (BaseAddress (Hdr rd)
            + ucast (load host (take (sizeof T) (drop (unat Index * sizeof T) (AddrOffsets rd)))
                     :: 'a word))
      \<and> unat (load host (take (sizeof T) (drop (unat Index * sizeof T) (AddrOffsets rd)))
                     :: 'a word)
        = (\<Sum>k \<in> {..<sizeof T}. unat (AddrOffsets rd ! (unat Index * sizeof T + k))
              * 256 ^ (case host of little \<Rightarrow> k | big \<Rightarrow> sizeof T - 1 - k))
      \<and> unat (BaseAddress (Hdr rd)
            + ucast (load host (take (sizeof T) (drop (unat Index * sizeof T) (AddrOffsets rd)))
                     :: 'a word))
        = (unat (BaseAddress (Hdr rd))
            + (\<Sum>k \<in> {..<sizeof T}. unat (AddrOffsets rd ! (unat Index * sizeof T + k))
                * 256 ^ (case host of little \<Rightarrow> k | big \<Rightarrow> sizeof T - 1 - k))) mod 2 ^ 64)
    \<and> (length (AddrOffsets rd) div sizeof T \<le> unat Index \<longrightarrow>
      addressForIndex T host rd Index = None)"
  unfolding sizeof_itself [of T]
proof -
  let ?sz = "sizeof TYPE('a)"
  let ?raw = "load host (take ?sz (drop (unat Index * ?sz) (AddrOffsets rd))) :: 'a word"
  let ?S = "\<Sum>k \<in> {..<?sz}. unat (AddrOffsets rd ! (unat Index * ?sz + k))
              * 256 ^ (case host of little \<Rightarrow> k | big \<Rightarrow> ?sz - 1 - k)"
  have le: "LENGTH('a) \<le> 64" by (rule offset_type_le64 [OF assms])
  have "unat (BaseAddress (Hdr rd) + ucast ?raw)
      = (unat (BaseAddress (Hdr rd)) + unat (ucast ?raw :: uint64_t)) mod 2 ^ LENGTH(64)"
    by (rule unat_word_ariths(1))
  then have u: "unat (BaseAddress (Hdr rd) + ucast ?raw)
      = (unat (BaseAddress (Hdr rd)) + unat ?raw) mod 2 ^ 64"
    by (simp add: unat_ucast_uint64 [OF le])
  have a: "addressForIndex T host rd Index = Some (BaseAddress (Hdr rd) + ucast ?raw)"
    if "unat Index < length (AddrOffsets rd) div ?sz"
    using that
    by (simp add: addressForIndex_def Let_def length_getAddrOffsets nth_getAddrOffsets add.commute)
  have s: "unat ?raw = ?S" if "unat Index < length (AddrOffsets rd) div ?sz"
    by (rule unat_load_stored [OF assms that])
  have b: "addressForIndex T host rd Index = None"
    if "length (AddrOffsets rd) div ?sz \<le> unat Index"
    using that by (simp add: addressForIndex_def Let_def length_getAddrOffsets)
  have us: "unat (BaseAddress (Hdr rd) + ucast ?raw) = (unat (BaseAddress (Hdr rd)) + ?S) mod 2 ^ 64"
    if "unat Index < length (AddrOffsets rd) div ?sz"
    using u s [OF that] by (simp only:)
  from a b s us show "(unat Index < length (AddrOffsets rd) div ?sz \<longrightarrow>
      addressForIndex T host rd Index = Some (BaseAddress (Hdr rd) + ucast ?raw)
      \<and> unat ?raw = ?S
      \<and> unat (BaseAddress (Hdr rd) + ucast ?raw)
        = (unat (BaseAddress (Hdr rd)) + ?S) mod 2 ^ 64)
    \<and> (length (AddrOffsets rd) div ?sz \<le> unat Index \<longrightarrow>
      addressForIndex T host rd Index = None)"
    by blast
qed

text \<open>
  Witness for C6, the spec's scenario: the bytes \<open>0x10, 0x00\<close> at index 1 are the offset
  \<open>0x10\<close> on a little-endian host, so the address is \<open>0x1010\<close>; a big-endian host reads
  them as \<open>0x1000\<close>; index 3 is out of range.
\<close>

theorem addressForIndex_spec_witness:
  "addressForIndex TYPE(16) little example_reader 1 = Some 0x1010
   \<and> addressForIndex TYPE(16) big example_reader 1 = Some 0x2000
   \<and> addressForIndex TYPE(16) little example_reader 3 = None"
proof -
  let ?c = "take 2 (drop 2 (AddrOffsets example_reader))"
  note l = addressForIndex_spec [OF offset_type_simps(2), of 1 example_reader little]
  note b = addressForIndex_spec [OF offset_type_simps(2), of 1 example_reader big]
  note n = addressForIndex_spec [OF offset_type_simps(2), of 3 example_reader little]
  have r: "unat (1 :: size_t) < length (AddrOffsets example_reader) div sizeof TYPE(16)"
    by (simp add: sizeof_simps AddrOffsets_example_reader)
  from l r have "unat (load little ?c :: uint16_t) = 16"
    by (simp add: sizeof_simps AddrOffsets_example_reader sum_lessThan_2)
  then have vl: "(load little ?c :: uint16_t) = 16"
    by (simp add: word_unat_eq_iff)
  from b r have "unat (load big ?c :: uint16_t) = 4096"
    by (simp add: sizeof_simps AddrOffsets_example_reader sum_lessThan_2)
  then have vb: "(load big ?c :: uint16_t) = 4096"
    by (simp add: word_unat_eq_iff)
  from l r vl have 1: "addressForIndex TYPE(16) little example_reader 1 = Some 0x1010"
    by (simp add: sizeof_simps BaseAddress_readers)
  from b r vb have 2: "addressForIndex TYPE(16) big example_reader 1 = Some 0x2000"
    by (simp add: sizeof_simps BaseAddress_readers)
  from n have 3: "addressForIndex TYPE(16) little example_reader 3 = None"
    by (simp add: sizeof_simps AddrOffsets_example_reader)
  from 1 2 3 show ?thesis by blast
qed

section \<open>The file table\<close>

text \<open>
  Claim C9. \<^verbatim>\<open>getFile(Index)\<close> returns \<^verbatim>\<open>llvm::None\<close> exactly when \<open>Index\<close> is at least the
  length of the file table, and the entry stored at \<open>Index\<close> otherwise.
\<close>

theorem getFile_spec:
  "(getFile rd Index = None \<longleftrightarrow> length (Files rd) \<le> unat Index)
   \<and> (unat Index < length (Files rd) \<longrightarrow> getFile rd Index = Some (Files rd ! unat Index))"
  by (simp add: getFile_def)

text \<open>Witness for C9: a file table of two entries, read at index 1 and at index 2.\<close>

theorem getFile_spec_witness:
  "getFile example_reader 1 = Some \<lparr>Dir = 0, Base = 6\<rparr> \<and> getFile example_reader 2 = None"
  using getFile_spec [of example_reader 1] getFile_spec [of example_reader 2]
  by (simp add: Files_example_reader)

section \<open>The string table\<close>

lemma StrTab_example_reader:
  "StrTab example_reader = CHR 0x00 # ''main'' @ CHR 0x00 # ''foo'' @ [CHR 0x00]"
  by (simp add: example_reader_def)

lemma takeWhile_split:
  assumes "z \<in> set ys"
  shows "\<exists>rest. ys = takeWhile (\<lambda>c. c \<noteq> z) ys @ z # rest"
proof -
  have d: "dropWhile (\<lambda>c. c \<noteq> z) ys \<noteq> []"
    using assms by (auto simp: dropWhile_eq_Nil_conv)
  then have "hd (dropWhile (\<lambda>c. c \<noteq> z) ys) = z"
    using hd_dropWhile [of "\<lambda>c. c \<noteq> z" ys] by simp
  with d have "dropWhile (\<lambda>c. c \<noteq> z) ys = z # tl (dropWhile (\<lambda>c. c \<noteq> z) ys)"
    by (cases "dropWhile (\<lambda>c. c \<noteq> z) ys") simp_all
  then have "ys = takeWhile (\<lambda>c. c \<noteq> z) ys @ z # tl (dropWhile (\<lambda>c. c \<noteq> z) ys)"
    using takeWhile_dropWhile_id [of "\<lambda>c. c \<noteq> z" ys] by simp
  then show ?thesis by blast
qed

lemma takeWhile_free: "z \<notin> set (takeWhile (\<lambda>c. c \<noteq> z) ys)"
  by (auto dest: set_takeWhileD)

text \<open>
  Claim C8. When a NUL byte follows the offset inside the string table, \<^verbatim>\<open>getString\<close> returns
  the bytes from the offset up to the first NUL (the table from the offset on is the
  result, that NUL, and a rest; the result holds no NUL). For every other offset, out of
  range or without a terminator, it returns the empty string. On the table
  \<^verbatim>\<open>"\0main\0foo\0"\<close> the offsets 1, 6 and 0 give \<^verbatim>\<open>"main"\<close>, \<^verbatim>\<open>"foo"\<close> and \<^verbatim>\<open>""\<close>.
\<close>

theorem getString_spec:
  "(unat Offset < length (StrTab rd) \<and> CHR 0x00 \<in> set (drop (unat Offset) (StrTab rd)) \<longrightarrow>
      (\<exists>rest. drop (unat Offset) (StrTab rd) = getString rd Offset @ CHR 0x00 # rest)
      \<and> CHR 0x00 \<notin> set (getString rd Offset))
   \<and> (\<not> (unat Offset < length (StrTab rd) \<and> CHR 0x00 \<in> set (drop (unat Offset) (StrTab rd)))
        \<longrightarrow> getString rd Offset = [])
   \<and> getString example_reader 1 = ''main''
   \<and> getString example_reader 6 = ''foo''
   \<and> getString example_reader 0 = []"
proof -
  have 1: "(\<exists>rest. drop (unat Offset) (StrTab rd) = getString rd Offset @ CHR 0x00 # rest)
      \<and> CHR 0x00 \<notin> set (getString rd Offset)"
    if "unat Offset < length (StrTab rd) \<and> CHR 0x00 \<in> set (drop (unat Offset) (StrTab rd))"
    using that takeWhile_split [of "CHR 0x00" "drop (unat Offset) (StrTab rd)"]
      takeWhile_free [of "CHR 0x00" "drop (unat Offset) (StrTab rd)"]
    by (simp add: getString_def StringTable_at_def)
  have 2: "getString rd Offset = []"
    if "\<not> (unat Offset < length (StrTab rd) \<and> CHR 0x00 \<in> set (drop (unat Offset) (StrTab rd)))"
    using that by (auto simp: getString_def StringTable_at_def)
  have 3: "getString example_reader 1 = ''main''"
    by (simp add: getString_def StringTable_at_def StrTab_example_reader)
  have 4: "getString example_reader 6 = ''foo''"
    by (simp add: getString_def StringTable_at_def StrTab_example_reader)
  have 5: "getString example_reader 0 = []"
    by (simp add: getString_def StringTable_at_def StrTab_example_reader)
  from 1 2 3 4 5 show ?thesis by blast
qed

text \<open>
  Witness for C8: the table \<^verbatim>\<open>"ab\0"\<close> at offset 1 and at the out-of-range offset 3, and the
  unterminated table \<^verbatim>\<open>"ab"\<close> at offset 1.
\<close>

theorem getString_spec_witness:
  "getString (example_reader\<lparr>StrTab := ''ab'' @ [CHR 0x00]\<rparr>) 1 = ''b''
   \<and> getString (example_reader\<lparr>StrTab := ''ab'' @ [CHR 0x00]\<rparr>) 3 = []
   \<and> getString (example_reader\<lparr>StrTab := ''ab''\<rparr>) 1 = []"
proof -
  let ?rd = "example_reader\<lparr>StrTab := ''ab'' @ [CHR 0x00]\<rparr>"
  from getString_spec [of 1 ?rd]
  obtain rest where r: "[CHR ''b'', CHR 0x00] = getString ?rd 1 @ CHR 0x00 # rest"
    and n: "CHR 0x00 \<notin> set (getString ?rd 1)"
    by auto
  have a: "getString ?rd 1 = ''b''"
  proof (cases "getString ?rd 1")
    case Nil
    with r show ?thesis by simp
  next
    case (Cons c cs)
    with r n show ?thesis by (cases cs) auto
  qed
  have b: "getString ?rd 3 = []"
    using getString_spec [of 3 ?rd] by simp
  have c: "getString (example_reader\<lparr>StrTab := ''ab''\<rparr>) 1 = []"
    using getString_spec [of 1 "example_reader\<lparr>StrTab := ''ab''\<rparr>"] by simp
  from a b c show ?thesis by blast
qed

section \<open>Errors of the address lookup\<close>

lemma searchAddressOffset_NotFound:
  fixes T :: "'a::len itself"
  assumes "case map ucast (getAddrOffsets host rd :: 'a word list) of [] \<Rightarrow> True
           | x # _ \<Rightarrow> AddrOffset < x"
  shows "searchAddressOffset T host rd AddrOffset = Inl NotFound"
  using assms
  by (cases "getAddrOffsets host rd :: 'a word list") (simp_all add: searchAddressOffset_def)

lemma AddrOffSize_readers:
  "AddrOffSize (Hdr example_reader) = Width2" "AddrOffSize (Hdr duplicate_reader) = Width1"
  by (simp_all add: example_reader_def duplicate_reader_def)

lemma AddressTable_duplicate_reader: "AddressTable little duplicate_reader = [5, 5, 9]"
  by (simp add: AddressTable_def AddrOffSize_readers getAddrOffsets_duplicate_reader)

lemma AddressTable_example_reader: "AddressTable little example_reader = [0, 0x10, 0x50]"
  by (simp add: AddressTable_def AddrOffSize_readers getAddrOffsets_example_reader)

lemma getAddressIndex_example_reader:
  "getAddressIndex little example_reader 0x1012 = Inr 1"
  "getAddressIndex little example_reader 0x1000 = Inr 0"
  by (simp_all add: getAddressIndex_def searchAddressOffset_def getAddrOffsets_example_reader
      getAddressOffsetIndex_def lower_bound_def BaseAddress_readers AddrOffSize_readers)

text \<open>
  Where the lookup passes its guards it returns what the search of the source returns, at the
  header's width; so on the table \<open>[5, 5, 9]\<close> the address \<open>0x1005\<close> of entry 1 is looked up
  as index 0.
\<close>

lemma searchAddressOffset_Inr:
  fixes T :: "'a::len itself"
  assumes "map ucast (getAddrOffsets host rd :: 'a word list) = x # rest"
    and "x \<le> AddrOffset"
  shows "searchAddressOffset T host rd AddrOffset
    = Inr (getAddressOffsetIndex T host rd AddrOffset)"
  using assms
  by (cases "getAddrOffsets host rd :: 'a word list") (auto simp: searchAddressOffset_def)

lemma getAddressIndex_search:
  assumes "BaseAddress (Hdr rd) \<le> Addr"
    and "AddressTable host rd = x # rest"
    and "x \<le> Addr - BaseAddress (Hdr rd)"
  shows "getAddressIndex host rd Addr
    = Inr (case AddrOffSize (Hdr rd) of
        Width1 \<Rightarrow> getAddressOffsetIndex TYPE(8) host rd (Addr - BaseAddress (Hdr rd))
      | Width2 \<Rightarrow> getAddressOffsetIndex TYPE(16) host rd (Addr - BaseAddress (Hdr rd))
      | Width4 \<Rightarrow> getAddressOffsetIndex TYPE(32) host rd (Addr - BaseAddress (Hdr rd))
      | Width8 \<Rightarrow> getAddressOffsetIndex TYPE(64) host rd (Addr - BaseAddress (Hdr rd)))"
proof -
  from assms(1) have nb: "\<not> Addr < BaseAddress (Hdr rd)" by simp
  show ?thesis
  proof (cases "AddrOffSize (Hdr rd)")
    case Width1
    with assms(2) have "map ucast (getAddrOffsets host rd :: uint8_t list) = x # rest"
      by (simp add: AddressTable_def)
    from searchAddressOffset_Inr [OF this assms(3), of "TYPE(8)"] Width1 nb
    show ?thesis by (simp add: getAddressIndex_def)
  next
    case Width2
    with assms(2) have "map ucast (getAddrOffsets host rd :: uint16_t list) = x # rest"
      by (simp add: AddressTable_def)
    from searchAddressOffset_Inr [OF this assms(3), of "TYPE(16)"] Width2 nb
    show ?thesis by (simp add: getAddressIndex_def)
  next
    case Width4
    with assms(2) have "map ucast (getAddrOffsets host rd :: uint32_t list) = x # rest"
      by (simp add: AddressTable_def)
    from searchAddressOffset_Inr [OF this assms(3), of "TYPE(32)"] Width4 nb
    show ?thesis by (simp add: getAddressIndex_def)
  next
    case Width8
    with assms(2) have "map ucast (getAddrOffsets host rd :: uint64_t list) = x # rest"
      by (simp add: AddressTable_def)
    from searchAddressOffset_Inr [OF this assms(3), of "TYPE(64)"] Width8 nb
    show ?thesis by (simp add: getAddressIndex_def)
  qed
qed

lemma getAddressIndex_duplicate_reader:
  "getAddressIndex little duplicate_reader 0x1005 = Inr 0"
  using getAddressIndex_search [of duplicate_reader "0x1005" little 5 "[5, 9]"]
  by (simp add: BaseAddress_readers AddressTable_duplicate_reader AddrOffSize_readers
      getAddressOffsetIndex_duplicate_5)

text \<open>
  Claim C4. \<^verbatim>\<open>getAddressIndex\<close> fails with \<^verbatim>\<open>BelowRange\<close> for every address below the base
  address. For an address at or above the base address it fails with \<^verbatim>\<open>NotFound\<close> when
  the address table is empty or the offset of the address from the base address is strictly
  smaller than the first entry of the table.
\<close>

theorem getAddressIndex_errors:
  "(Addr < BaseAddress (Hdr rd) \<longrightarrow> getAddressIndex host rd Addr = Inl BelowRange)
   \<and> (BaseAddress (Hdr rd) \<le> Addr
        \<and> (case AddressTable host rd of [] \<Rightarrow> True
            | x # _ \<Rightarrow> Addr - BaseAddress (Hdr rd) < x)
      \<longrightarrow> getAddressIndex host rd Addr = Inl NotFound)"
proof -
  have 1: "getAddressIndex host rd Addr = Inl BelowRange" if "Addr < BaseAddress (Hdr rd)"
    using that by (simp add: getAddressIndex_def)
  have 2: "getAddressIndex host rd Addr = Inl NotFound"
    if b: "BaseAddress (Hdr rd) \<le> Addr"
      and t: "case AddressTable host rd of [] \<Rightarrow> True | x # _ \<Rightarrow> Addr - BaseAddress (Hdr rd) < x"
  proof -
    from b have nb: "\<not> Addr < BaseAddress (Hdr rd)" by simp
    show ?thesis
    proof (cases "AddrOffSize (Hdr rd)")
      case Width1
      with t nb show ?thesis
        using searchAddressOffset_NotFound
            [where T="TYPE(8)" and host=host and rd=rd and AddrOffset="Addr - BaseAddress (Hdr rd)"]
        by (simp add: getAddressIndex_def AddressTable_def)
    next
      case Width2
      with t nb show ?thesis
        using searchAddressOffset_NotFound
            [where T="TYPE(16)" and host=host and rd=rd and AddrOffset="Addr - BaseAddress (Hdr rd)"]
        by (simp add: getAddressIndex_def AddressTable_def)
    next
      case Width4
      with t nb show ?thesis
        using searchAddressOffset_NotFound
            [where T="TYPE(32)" and host=host and rd=rd and AddrOffset="Addr - BaseAddress (Hdr rd)"]
        by (simp add: getAddressIndex_def AddressTable_def)
    next
      case Width8
      with t nb show ?thesis
        using searchAddressOffset_NotFound
            [where T="TYPE(64)" and host=host and rd=rd and AddrOffset="Addr - BaseAddress (Hdr rd)"]
        by (simp add: getAddressIndex_def AddressTable_def)
    qed
  qed
  from 1 2 show ?thesis by blast
qed

text \<open>
  Witness for C4: \<open>0x0FFF\<close> is below the base \<open>0x1000\<close>; \<open>0x1004\<close> has offset 4, below the
  first entry 5 of \<open>[5, 5, 9]\<close>; and the same address on a reader with an empty table.
\<close>

theorem getAddressIndex_errors_witness:
  "getAddressIndex little example_reader 0x0FFF = Inl BelowRange
   \<and> getAddressIndex little duplicate_reader 0x1004 = Inl NotFound
   \<and> getAddressIndex little (duplicate_reader\<lparr>AddrOffsets := []\<rparr>) 0x1004 = Inl NotFound"
proof -
  have e: "AddressTable little (duplicate_reader\<lparr>AddrOffsets := []\<rparr>) = []"
    by (simp add: AddressTable_def getAddrOffsets_no_bytes split: AddrOffSize_t.splits)
  have b: "BaseAddress (Hdr (duplicate_reader\<lparr>AddrOffsets := []\<rparr>)) = 0x1000"
    by (simp add: duplicate_reader_def)
  show ?thesis
    using getAddressIndex_errors [of "0x0FFF" example_reader little]
      getAddressIndex_errors [of "0x1004" duplicate_reader little]
      getAddressIndex_errors [of "0x1004" "duplicate_reader\<lparr>AddrOffsets := []\<rparr>" little]
    by (simp add: BaseAddress_readers AddressTable_duplicate_reader e b)
qed

end
